theory Spec2Isabelle
  imports Main "HOL-Library.Multiset" "HOL-Library.List_Lexorder" "HOL-Library.AList"
begin

section \<open>The Python values that the tool computes with\<close>

text \<open>
  A Python \<open>str\<close> is a sequence of Unicode code points; it is modelled as the list of
  its code points, so that \<open>len\<close>, \<open>==\<close> and \<open><\<close> (lexicographic by code point, the
  order of \<open>HOL-Library.List_Lexorder\<close> on \<open>nat list\<close>) are those of Python. ASCII
  literals of the source are written \<open>py ''...''\<close>.
\<close>

type_synonym pystr = "nat list"

abbreviation py :: "string \<Rightarrow> pystr" where
  "py s \<equiv> map of_char s"

text \<open>
  \<open>str(n)\<close> for an integer: decimal digits, with a minus sign when negative. The
  digits are produced from the last one; the first argument of \<open>str_nat_digits\<close> bounds
  the number of digits, and \<open>Suc n\<close> is more than a number \<open>n\<close> has.
\<close>

fun str_nat_digits :: "nat \<Rightarrow> nat \<Rightarrow> pystr" where
  "str_nat_digits 0 n = []"
| "str_nat_digits (Suc k) n =
     (if n < 10 then [48 + n] else str_nat_digits k (n div 10) @ [48 + n mod 10])"

definition str_nat :: "nat \<Rightarrow> pystr" where
  "str_nat n = str_nat_digits (Suc n) n"

definition str_int :: "int \<Rightarrow> pystr" where
  "str_int i = (if i < 0 then 45 # str_nat (nat (- i)) else str_nat (nat i))"

text \<open>The format specification \<open>{x:3d}\<close>: right-aligned in a field of width 3.\<close>

definition format_3d :: "int \<Rightarrow> pystr" where
  "format_3d i = (let s = str_int i in replicate (3 - length s) 32 @ s)"

text \<open>\<open>sep.join(parts)\<close>.\<close>

fun join :: "pystr \<Rightarrow> pystr list \<Rightarrow> pystr" where
  "join sep [] = []"
| "join sep [x] = x"
| "join sep (x # y # ys) = x @ sep @ join sep (y # ys)"

text \<open>\<open>s.split(sep)\<close> for a one-character separator.\<close>

fun split_on :: "nat \<Rightarrow> pystr \<Rightarrow> pystr list" where
  "split_on sep [] = [[]]"
| "split_on sep (c # cs) =
     (if c = sep then [] # split_on sep cs
      else (let r = split_on sep cs in (c # hd r) # tl r))"

text \<open>
  \<open>str.isspace\<close> on one code point, \<open>s.rstrip()\<close>, and the line boundaries of
  \<open>s.splitlines()\<close> (a carriage return followed by a line feed is one boundary; a final
  boundary opens no further line).
\<close>

definition isspace :: "nat \<Rightarrow> bool" where
  "isspace c \<longleftrightarrow>
     (9 \<le> c \<and> c \<le> 13) \<or> (28 \<le> c \<and> c \<le> 32) \<or> c = 133 \<or> c = 160 \<or> c = 5760 \<or>
     (8192 \<le> c \<and> c \<le> 8202) \<or> c = 8232 \<or> c = 8233 \<or> c = 8239 \<or> c = 8287 \<or> c = 12288"

definition rstrip :: "pystr \<Rightarrow> pystr" where
  "rstrip s = rev (dropWhile isspace (rev s))"

definition is_linebreak :: "nat \<Rightarrow> bool" where
  "is_linebreak c \<longleftrightarrow>
     (10 \<le> c \<and> c \<le> 13) \<or> (28 \<le> c \<and> c \<le> 30) \<or> c = 133 \<or> c = 8232 \<or> c = 8233"

fun splitlines_from :: "pystr \<Rightarrow> pystr \<Rightarrow> pystr list" where
  "splitlines_from cur [] = (if cur = [] then [] else [cur])"
| "splitlines_from cur [c] = (if is_linebreak c then [cur] else [cur @ [c]])"
| "splitlines_from cur (c # d # cs) =
     (if c = 13 \<and> d = 10 then cur # splitlines_from [] cs
      else if is_linebreak c then cur # splitlines_from [] (d # cs)
      else splitlines_from (cur @ [c]) (d # cs))"

definition splitlines :: "pystr \<Rightarrow> pystr list" where
  "splitlines s = splitlines_from [] s"

text \<open>\<open>pat in s\<close> on strings: \<open>pat\<close> occurs as a contiguous substring of \<open>s\<close>.\<close>

fun startswith :: "pystr \<Rightarrow> pystr \<Rightarrow> bool" where
  "startswith s [] = True"
| "startswith [] (p # ps) = False"
| "startswith (c # cs) (p # ps) = (c = p \<and> startswith cs ps)"

fun str_contains :: "pystr \<Rightarrow> pystr \<Rightarrow> bool" where
  "str_contains [] pat = (pat = [])"
| "str_contains (c # cs) pat = (startswith (c # cs) pat \<or> str_contains cs pat)"

section \<open>Syntax trees\<close>

text \<open>
  The nodes of Python's \<open>ast\<close> module, as far as the tool tells them apart: exception
  handlers, calls, attribute accesses, names, \<open>raise\<close>, \<open>return\<close> and \<open>pass\<close>. Every
  other node class (\<open>Module\<close>, \<open>Try\<close>, \<open>FunctionDef\<close>, \<open>Lambda\<close>, \<open>ListComp\<close>,
  \<open>Expr\<close>, \<open>keyword\<close>, ...) is \<open>Other\<close>, carrying its class name and its child nodes in
  field order. An expression context (\<open>Load\<close>, \<open>Store\<close>, \<open>Del\<close>) is a node of its own,
  as in \<open>ast\<close>.
\<close>

datatype expr_context = Load | Store | Del

datatype node =
    ExceptHandler (lineno: int) (col_offset: "int option") (type: "node option")
      (name: "pystr option") (body: "node list")
  | Call node "node list" "node list"
  | Attribute node pystr expr_context
  | Name pystr expr_context
  | Raise "node option" "node option"
  | Return "node option"
  | Pass
  | Ctx expr_context
  | Other pystr "node list"

text \<open>\<open>ast.iter_child_nodes\<close>: the direct child nodes, in field order.\<close>

fun iter_child_nodes :: "node \<Rightarrow> node list" where
  "iter_child_nodes (ExceptHandler ln col ty nm bd) = (case ty of None \<Rightarrow> [] | Some t \<Rightarrow> [t]) @ bd"
| "iter_child_nodes (Call f as ks) = f # as @ ks"
| "iter_child_nodes (Attribute v a c) = [v, Ctx c]"
| "iter_child_nodes (Name i c) = [Ctx c]"
| "iter_child_nodes (Raise exc cause) =
     (case exc of None \<Rightarrow> [] | Some e \<Rightarrow> [e]) @ (case cause of None \<Rightarrow> [] | Some e \<Rightarrow> [e])"
| "iter_child_nodes (Return v) = (case v of None \<Rightarrow> [] | Some e \<Rightarrow> [e])"
| "iter_child_nodes Pass = []"
| "iter_child_nodes (Ctx c) = []"
| "iter_child_nodes (Other cls cs) = cs"

text \<open>The number of nodes of a subtree; the measure for the traversals below.\<close>

primrec node_count :: "node \<Rightarrow> nat" where
  "node_count (ExceptHandler ln col ty nm bd) =
     Suc (case_option 0 id (map_option node_count ty) + sum_list (map node_count bd))"
| "node_count (Call f as ks) =
     Suc (node_count f + sum_list (map node_count as) + sum_list (map node_count ks))"
| "node_count (Attribute v a c) = Suc (Suc (node_count v))"
| "node_count (Name i c) = Suc (Suc 0)"
| "node_count (Raise exc cause) =
     Suc (case_option 0 id (map_option node_count exc) +
          case_option 0 id (map_option node_count cause))"
| "node_count (Return v) = Suc (case_option 0 id (map_option node_count v))"
| "node_count Pass = Suc 0"
| "node_count (Ctx c) = Suc 0"
| "node_count (Other cls cs) = Suc (sum_list (map node_count cs))"

lemma node_count_children:
  "node_count n = Suc (sum_list (map node_count (iter_child_nodes n)))"
  by (cases n) (auto split: option.splits)

lemma node_count_child:
  assumes "c \<in> set (iter_child_nodes n)"
  shows "node_count c < node_count n"
proof -
  have "node_count c \<le> sum_list (map node_count (iter_child_nodes n))"
    using assms by (simp add: member_le_sum_list)
  then show ?thesis
    by (simp add: node_count_children [of n])
qed

text \<open>
  \<open>ast.walk\<close>: the node and all its descendants, breadth first. The queue \<open>todo\<close> of the
  library's loop is the argument of \<open>walk_loop\<close>.
\<close>

function walk_loop :: "node list \<Rightarrow> node list" where
  "walk_loop [] = []"
| "walk_loop (n # todo) = n # walk_loop (todo @ iter_child_nodes n)"
  by pat_completeness auto
termination
proof (relation "measure (\<lambda>todo. sum_list (map node_count todo))")
  show "wf (measure (\<lambda>todo. sum_list (map node_count todo)))" by simp
next
  fix n :: node and todo :: "node list"
  show "(todo @ iter_child_nodes n, n # todo) \<in> measure (\<lambda>todo. sum_list (map node_count todo))"
    by (simp add: node_count_children [of n])
qed

definition walk :: "node \<Rightarrow> node list" where
  "walk n = walk_loop [n]"

text \<open>All nodes of a subtree, the root first, then the subtrees of its children in order.\<close>

function subtree_nodes :: "node \<Rightarrow> node list" where
  "subtree_nodes n = n # concat (map subtree_nodes (iter_child_nodes n))"
  by pat_completeness auto
termination
  by (relation "measure node_count") (auto simp: node_count_child)

declare subtree_nodes.simps [simp del]

section \<open>Issues and the visitor\<close>

record SilentExceptionIssue =
  file_path :: pystr
  line_number :: int
  column :: int
  issue_type :: pystr
  description :: pystr
  code_snippet :: "pystr option"

text \<open>
  The state of a \<open>SilentExceptionVisitor\<close>: \<open>self.file_path\<close>, \<open>self.source_lines\<close>
  and the list \<open>self.issues\<close>, which is the only field the methods update.
\<close>

record SilentExceptionVisitor =
  self_file_path :: pystr
  self_source_lines :: "pystr list"
  self_issues :: "SilentExceptionIssue list"

text \<open>\<open>SilentExceptionVisitor.__init__\<close>.\<close>

definition init_visitor :: "pystr \<Rightarrow> pystr list \<Rightarrow> SilentExceptionVisitor" where
  "init_visitor path source_lines =
     \<lparr>self_file_path = path, self_source_lines = source_lines, self_issues = []\<rparr>"

text \<open>
  \<open>_get_code_snippet\<close>; \<open>snippet_line\<close> is the line its loop appends for the index
  \<open>i\<close>. The loop index runs over \<open>range(start, end)\<close> with
  \<open>0 \<le> start\<close> and \<open>end \<le> len(source_lines)\<close>, so every read of \<open>source_lines\<close> is in
  range.
\<close>

definition snippet_line :: "pystr list \<Rightarrow> int \<Rightarrow> int \<Rightarrow> pystr" where
  "snippet_line source_lines line_num i =
     (if i = line_num - 1 then py ''>>> '' else py ''    '') @
     format_3d (i + 1) @ py '': '' @ rstrip (source_lines ! nat i)"

definition get_code_snippet :: "SilentExceptionVisitor \<Rightarrow> int \<Rightarrow> int \<Rightarrow> pystr" where
  "get_code_snippet self line_num context_lines =
     (let start = max 0 (line_num - context_lines - 1);
          end' = min (int (length (self_source_lines self))) (line_num + context_lines);
          lines = map (snippet_line (self_source_lines self) line_num) [start..end' - 1]
      in join [10] lines)"

text \<open>\<open>_is_empty_handler\<close> and \<open>_is_pass_only_handler\<close>.\<close>

definition is_empty_handler :: "node \<Rightarrow> bool" where
  "is_empty_handler node \<longleftrightarrow> length (body node) = 0"

definition is_pass_only_handler :: "node \<Rightarrow> bool" where
  "is_pass_only_handler node \<longleftrightarrow> length (body node) = 1 \<and> body node ! 0 = Pass"

text \<open>
  \<open>_has_logging_or_reraise\<close>: the \<open>for\<close> loop over \<open>ast.walk(node)\<close>, returning at the
  first node that passes one of its four tests.
\<close>

definition is_logging_call :: "node \<Rightarrow> bool" where
  "is_logging_call stmt =
     (case stmt of
        Call (Attribute v a c) as ks \<Rightarrow>
          a \<in> set [py ''debug'', py ''info'', py ''warning'', py ''error'', py ''critical'',
                   py ''exception'']
      | _ \<Rightarrow> False)"

definition is_print_call :: "node \<Rightarrow> bool" where
  "is_print_call stmt =
     (case stmt of Call (Name i c) as ks \<Rightarrow> i = py ''print'' | _ \<Rightarrow> False)"

definition is_Raise :: "node \<Rightarrow> bool" where
  "is_Raise stmt = (case stmt of Raise exc cause \<Rightarrow> True | _ \<Rightarrow> False)"

definition is_Return :: "node \<Rightarrow> bool" where
  "is_Return stmt = (case stmt of Return v \<Rightarrow> True | _ \<Rightarrow> False)"

fun has_logging_or_reraise_loop :: "node list \<Rightarrow> bool" where
  "has_logging_or_reraise_loop [] = False"
| "has_logging_or_reraise_loop (stmt # rest) =
     (if is_logging_call stmt then True
      else if is_print_call stmt then True
      else if is_Raise stmt then True
      else if is_Return stmt then True
      else has_logging_or_reraise_loop rest)"

definition has_logging_or_reraise :: "node \<Rightarrow> bool" where
  "has_logging_or_reraise node = has_logging_or_reraise_loop (walk node)"

text \<open>\<open>_is_silent_handler\<close>.\<close>

definition is_silent_handler :: "node \<Rightarrow> bool" where
  "is_silent_handler node \<longleftrightarrow>
     is_empty_handler node \<or> is_pass_only_handler node \<or> \<not> has_logging_or_reraise node"

text \<open>
  The call \<open>self.issues.append(SilentExceptionIssue(...))\<close>, which
  \<open>visit_ExceptHandler\<close> makes with the same position and snippet in each of its four
  places.
\<close>

definition new_issue ::
  "SilentExceptionVisitor \<Rightarrow> int \<Rightarrow> int \<Rightarrow> pystr \<Rightarrow> pystr \<Rightarrow> SilentExceptionIssue" where
  "new_issue self line_num col ty descr =
     \<lparr>file_path = self_file_path self, line_number = line_num, column = col,
      issue_type = ty, description = descr,
      code_snippet = Some (get_code_snippet self line_num 2)\<rparr>"

definition append_issue ::
  "SilentExceptionVisitor \<Rightarrow> int \<Rightarrow> int \<Rightarrow> pystr \<Rightarrow> pystr \<Rightarrow> SilentExceptionVisitor" where
  "append_issue self line_num col ty descr =
     self\<lparr>self_issues := self_issues self @ [new_issue self line_num col ty descr]\<rparr>"

text \<open>
  \<open>visit_ExceptHandler\<close> up to its last statement: the two \<open>if\<close>/\<open>elif\<close> chains (bare or
  broad, then empty or pass-only). \<open>isinstance(node.type, ast.Name)\<close> is the pattern
  \<open>Some (Name i c)\<close>; the code point 39 is the apostrophe.
\<close>

definition check_ExceptHandler :: "SilentExceptionVisitor \<Rightarrow> node \<Rightarrow> SilentExceptionVisitor" where
  "check_ExceptHandler self node =
     (let line_num = lineno node;
          col = (case col_offset node of None \<Rightarrow> 0 | Some c \<Rightarrow> c);
          self1 =
            (case type node of
               None \<Rightarrow>
                 append_issue self line_num col (py ''bare_except'')
                   (py ''Bare '' @ [39] @ py ''except:'' @ [39] @
                    py '' clause catches all exceptions'')
             | Some (Name i c) \<Rightarrow>
                 if i \<in> set [py ''Exception'', py ''BaseException''] then
                   if is_silent_handler node then
                     append_issue self line_num col (py ''broad_exception'')
                       (py ''Broad '' @ [39] @ i @ [39] @ py '' catch with silent handling'')
                   else self
                 else self
             | Some _ \<Rightarrow> self)
      in if is_empty_handler node then
           append_issue self1 line_num col (py ''empty_except'')
             (py ''Empty except block - exceptions are silently ignored'')
         else if is_pass_only_handler node then
           append_issue self1 line_num col (py ''pass_only'')
             (py ''Exception handler only contains '' @ [39] @ py ''pass'' @ [39] @
              py '' statement'')
         else self1)"

text \<open>
  \<open>NodeVisitor.visit\<close> dispatches on the node's class: \<open>visit_ExceptHandler\<close> for an
  exception handler, \<open>generic_visit\<close> for every other class (the visitor defines no
  other method). \<open>generic_visit\<close> visits the child nodes in field order;
  \<open>visit_ExceptHandler\<close> ends with \<open>self.generic_visit(node)\<close>.
\<close>

function visit :: "SilentExceptionVisitor \<Rightarrow> node \<Rightarrow> SilentExceptionVisitor"
  and visit_ExceptHandler :: "SilentExceptionVisitor \<Rightarrow> node \<Rightarrow> SilentExceptionVisitor"
  and generic_visit :: "SilentExceptionVisitor \<Rightarrow> node \<Rightarrow> SilentExceptionVisitor"
  and generic_visit_loop :: "SilentExceptionVisitor \<Rightarrow> node list \<Rightarrow> SilentExceptionVisitor"
where
  "visit self node =
     (case node of
        ExceptHandler ln col ty nm bd \<Rightarrow> visit_ExceptHandler self node
      | _ \<Rightarrow> generic_visit self node)"
| "visit_ExceptHandler self node = generic_visit (check_ExceptHandler self node) node"
| "generic_visit self node = generic_visit_loop self (iter_child_nodes node)"
| "generic_visit_loop self [] = self"
| "generic_visit_loop self (child # rest) = generic_visit_loop (visit self child) rest"
  by pat_completeness auto
termination
  by (relation "measure (\<lambda>x. case x of
        Inl (Inl (self, node)) \<Rightarrow> 4 * node_count node + 2
      | Inl (Inr (self, node)) \<Rightarrow> 4 * node_count node + 1
      | Inr (Inl (self, node)) \<Rightarrow> 4 * node_count node
      | Inr (Inr (self, todo)) \<Rightarrow> 4 * sum_list (map node_count todo) + 3)")
    (auto simp: node_count_children)

declare visit.simps [simp del] visit_ExceptHandler.simps [simp del] generic_visit.simps [simp del]

text \<open>
  The issues one call of \<open>visit_ExceptHandler\<close> appends for its own node, before it
  descends: what \<open>check_ExceptHandler\<close> adds to \<open>self.issues\<close>.
\<close>

definition handler_issues :: "SilentExceptionVisitor \<Rightarrow> node \<Rightarrow> SilentExceptionIssue list" where
  "handler_issues self node = drop (length (self_issues self)) (self_issues (check_ExceptHandler self node))"

text \<open>The handlers among a list of nodes, each with the issues emitted for it.\<close>

definition is_ExceptHandler :: "node \<Rightarrow> bool" where
  "is_ExceptHandler n = (case n of ExceptHandler ln col ty nm bd \<Rightarrow> True | _ \<Rightarrow> False)"

definition emitted_in :: "SilentExceptionVisitor \<Rightarrow> node list \<Rightarrow> SilentExceptionIssue list" where
  "emitted_in self nodes = concat (map (handler_issues self) (filter is_ExceptHandler nodes))"

text \<open>
  A recovery signal, in the words of the specification: a call of an attribute named
  \<open>debug\<close>, \<open>info\<close>, \<open>warning\<close>, \<open>error\<close>, \<open>critical\<close> or \<open>exception\<close> on any
  receiver, a call of the name \<open>print\<close>, a \<open>raise\<close> statement or a \<open>return\<close>
  statement.
\<close>

definition recovery_signal :: "node \<Rightarrow> bool" where
  "recovery_signal n \<longleftrightarrow>
     (\<exists>receiver a c as ks.
        n = Call (Attribute receiver a c) as ks \<and>
        a \<in> {py ''debug'', py ''info'', py ''warning'', py ''error'', py ''critical'',
             py ''exception''}) \<or>
     (\<exists>c as ks. n = Call (Name (py ''print'') c) as ks) \<or>
     (\<exists>exc cause. n = Raise exc cause) \<or>
     (\<exists>v. n = Return v)"

text \<open>The filter of a broad catch: the name \<open>Exception\<close> or \<open>BaseException\<close>.\<close>

definition is_broad_type :: "node option \<Rightarrow> bool" where
  "is_broad_type ty =
     (case ty of Some (Name i c) \<Rightarrow> i = py ''Exception'' \<or> i = py ''BaseException'' | _ \<Rightarrow> False)"

section \<open>Aggregation and the report\<close>

text \<open>
  A Python \<open>dict\<close> keeps its keys in insertion order: it is an association list with
  distinct keys, \<open>d.get(k)\<close> is \<open>map_of d k\<close>, and the assignment \<open>d[k] = v\<close> is
  \<open>AList.update k v d\<close>, which replaces the value of a key in place and puts a new key
  last.

  The grouping loop of \<open>format_issue_report\<close>: a path not yet in \<open>by_file\<close> gets the
  empty list, then the issue is appended to the list of its path.
\<close>

definition by_file_step ::
  "(pystr \<times> SilentExceptionIssue list) list \<Rightarrow> SilentExceptionIssue \<Rightarrow>
   (pystr \<times> SilentExceptionIssue list) list" where
  "by_file_step by_file issue =
     AList.update (file_path issue)
       ((case map_of by_file (file_path issue) of None \<Rightarrow> [] | Some file_issues \<Rightarrow> file_issues)
          @ [issue])
       by_file"

definition group_by_file ::
  "SilentExceptionIssue list \<Rightarrow> (pystr \<times> SilentExceptionIssue list) list" where
  "group_by_file issues = foldl by_file_step [] issues"

text \<open>
  The counting loop, the same in \<open>format_issue_report\<close> and in the \<open>--json\<close> branch of
  \<open>main\<close>: \<open>counts[t] = counts.get(t, 0) + 1\<close>.
\<close>

definition issue_counts_step ::
  "(pystr \<times> nat) list \<Rightarrow> SilentExceptionIssue \<Rightarrow> (pystr \<times> nat) list" where
  "issue_counts_step counts issue =
     AList.update (issue_type issue)
       ((case map_of counts (issue_type issue) of None \<Rightarrow> 0 | Some n \<Rightarrow> n) + 1)
       counts"

definition issue_counts :: "SilentExceptionIssue list \<Rightarrow> (pystr \<times> nat) list" where
  "issue_counts issues = foldl issue_counts_step [] issues"

text \<open>
  What the two nested \<open>for\<close> loops of \<open>format_issue_report\<close> iterate over:
  \<open>sorted(by_file.items())\<close>, and for each file
  \<open>sorted(file_issues, key=lambda x: x.line_number)\<close>. The keys of a dict are distinct,
  so the comparison of two items is decided by their paths; Python's \<open>sorted\<close> is
  stable, as \<open>sort_key\<close> is.
\<close>

definition report_sections ::
  "SilentExceptionIssue list \<Rightarrow> (pystr \<times> SilentExceptionIssue list) list" where
  "report_sections issues =
     map (\<lambda>(path, file_issues). (path, sort_key line_number file_issues))
       (sort_key fst (group_by_file issues))"

text \<open>The lines appended for one issue, and for one file with its sorted issues.\<close>

definition issue_lines :: "bool \<Rightarrow> SilentExceptionIssue \<Rightarrow> pystr list" where
  "issue_lines show_snippets issue =
     [py ''  Line '' @ str_int (line_number issue) @ py '': '' @ description issue @
        py '' ['' @ issue_type issue @ py '']''] @
     (case code_snippet issue of
        Some snippet \<Rightarrow>
          if show_snippets \<and> snippet \<noteq> [] then
            py ''  Code:'' # map (\<lambda>line. py ''    '' @ line) (split_on 10 snippet)
          else []
      | None \<Rightarrow> []) @
     [[]]"

definition file_section :: "bool \<Rightarrow> pystr \<times> SilentExceptionIssue list \<Rightarrow> pystr list" where
  "file_section show_snippets item =
     (case item of (path, sorted_issues) \<Rightarrow>
        [[240, 376, 8220] @ py '' '' @ path, replicate (length path) 61] @
        concat (map (issue_lines show_snippets) sorted_issues) @
        [[]])"

text \<open>The line of the summary for one issue type and its count.\<close>

definition summary_line :: "pystr \<times> nat \<Rightarrow> pystr" where
  "summary_line item = (case item of (ty, n) \<Rightarrow> py ''  '' @ ty @ py '': '' @ str_nat n)"

text \<open>
  \<open>format_issue_report\<close>. The decorations before the texts are the code points the
  source file holds at these places.
\<close>

definition format_issue_report :: "SilentExceptionIssue list \<Rightarrow> bool \<Rightarrow> pystr" where
  "format_issue_report issues show_snippets =
     (if issues = [] then [226, 339, 8230] @ py '' No silent exception handling issues found!''
      else
        join [10]
          ([[240, 376, 353, 168] @ py '' Found '' @ str_nat (length issues) @
              py '' silent exception handling issues:'' @ [10]] @
           concat (map (file_section show_snippets) (report_sections issues)) @
           [[240, 376, 8220, 352] @ py '' Issue Summary:''] @
           map summary_line (sort_key fst (issue_counts issues))))"

text \<open>\<open>get_files_with_issues\<close>: the set of paths, as a sorted list.\<close>

definition get_files_with_issues :: "SilentExceptionIssue list \<Rightarrow> pystr list" where
  "get_files_with_issues issues =
     sorted_list_of_set (foldl (\<lambda>files issue. insert (file_path issue) files) {} issues)"

section \<open>Analysing files, and the entry point\<close>

text \<open>
  What lies outside the tool is a parameter: a file is its path (as \<open>str\<close> prints it)
  and what \<open>read_text\<close> returns or raises; the parser \<open>ast.parse\<close> is a function from
  the source text and the file name to a tree or an exception. An exception carries the
  text that \<open>str(e)\<close> gives; the tool tells \<open>SyntaxError\<close> from every other
  \<open>Exception\<close>.
\<close>

datatype py_exception = SyntaxError pystr | OtherException pystr

record source_file =
  path_str :: pystr
  read_text :: "py_exception + pystr"

type_synonym parser = "pystr \<Rightarrow> pystr \<Rightarrow> py_exception + node"

text \<open>The two \<open>except\<close> clauses of \<open>analyze_file\<close>: a line on \<open>sys.stderr\<close>, no issues.\<close>

definition analyze_file_except ::
  "pystr \<Rightarrow> py_exception \<Rightarrow> SilentExceptionIssue list \<times> pystr list" where
  "analyze_file_except path e =
     (case e of
        SyntaxError msg \<Rightarrow> ([], [py ''Syntax error in '' @ path @ py '': '' @ msg])
      | OtherException msg \<Rightarrow> ([], [py ''Error analyzing '' @ path @ py '': '' @ msg]))"

text \<open>\<open>analyze_file\<close>: the issues returned, and the lines printed to \<open>sys.stderr\<close>.\<close>

definition analyze_file ::
  "parser \<Rightarrow> source_file \<Rightarrow> SilentExceptionIssue list \<times> pystr list" where
  "analyze_file ast_parse file =
     (case read_text file of
        Inl e \<Rightarrow> analyze_file_except (path_str file) e
      | Inr source_code \<Rightarrow>
          (let source_lines = splitlines source_code in
           case ast_parse source_code (path_str file) of
             Inl e \<Rightarrow> analyze_file_except (path_str file) e
           | Inr tree \<Rightarrow>
               (self_issues (visit (init_visitor (path_str file) source_lines) tree), [])))"

text \<open>
  \<open>analyze_directory\<close>, over the files that \<open>directory.rglob('*.py')\<close> yields, in the
  order it yields them. The state of the loop is \<open>all_issues\<close> and the lines printed so
  far.
\<close>

definition default_exclude_patterns :: "pystr list" where
  "default_exclude_patterns =
     [py ''__pycache__'', py ''.git'', py ''.venv'', py ''node_modules'', py ''temp_ask_claude'']"

text \<open>The test \<open>any(pattern in str(py_file) for pattern in exclude_patterns)\<close>.\<close>

definition excluded :: "pystr list \<Rightarrow> source_file \<Rightarrow> bool" where
  "excluded exclude_patterns py_file =
     list_ex (\<lambda>pattern. str_contains (path_str py_file) pattern) exclude_patterns"

definition analyze_directory_step ::
  "parser \<Rightarrow> pystr list \<Rightarrow> SilentExceptionIssue list \<times> pystr list \<Rightarrow> source_file \<Rightarrow>
   SilentExceptionIssue list \<times> pystr list" where
  "analyze_directory_step ast_parse exclude_patterns state py_file =
     (case state of (all_issues, printed) \<Rightarrow>
        if excluded exclude_patterns py_file then (all_issues, printed)
        else (case analyze_file ast_parse py_file of
                (file_issues, lines) \<Rightarrow> (all_issues @ file_issues, printed @ lines)))"

definition analyze_directory ::
  "parser \<Rightarrow> source_file list \<Rightarrow> pystr list option \<Rightarrow> SilentExceptionIssue list \<times> pystr list" where
  "analyze_directory ast_parse rglob_py exclude_patterns =
     (let exclude_patterns =
            (case exclude_patterns of None \<Rightarrow> default_exclude_patterns | Some ps \<Rightarrow> ps)
      in foldl (analyze_directory_step ast_parse exclude_patterns) ([], []) rglob_py)"

text \<open>
  The command line after \<open>argparse\<close>, and what the file system answers about
  \<open>args.path\<close>: whether it exists, whether it is a file, the file it is, and the files
  below it that end in \<open>.py\<close>.
\<close>

record arguments =
  path_arg :: pystr
  no_snippets :: bool
  exclude :: "pystr list"
  json :: bool
  files_only :: bool
  parallel_fix :: bool

record filesystem =
  path_exists :: bool
  path_is_file :: bool
  path_file :: source_file
  path_rglob_py :: "source_file list"

text \<open>
  What a run leaves behind: the \<open>print\<close> calls on standard output, the lines on
  \<open>sys.stderr\<close>, and the argument of \<open>sys.exit\<close>. The \<open>--json\<close> branch prints
  \<open>json.dumps(result, indent=2)\<close>; the library's serialisation is not modelled, and the
  print is recorded with the dict \<open>result\<close> itself.
\<close>

record json_result =
  json_issues :: "SilentExceptionIssue list"
  total_count :: nat
  files_with_issues :: "pystr list"
  files_count :: nat
  summary :: "(pystr \<times> nat) list"

datatype printed = Text pystr | JsonDump json_result

record outcome =
  stdout :: "printed list"
  stderr :: "pystr list"
  exit_status :: int

text \<open>The three closing messages of the \<open>--parallel-fix\<close> branch (their first lines).\<close>

definition parallel_fix_recommended :: "nat \<Rightarrow> pystr" where
  "parallel_fix_recommended n =
     [10] @ [240, 376, 353, 8364] @ py '' Parallel fix recommended for '' @ str_nat n @
     py '' files''"

definition sequential_fix_recommended :: "nat \<Rightarrow> pystr" where
  "sequential_fix_recommended n =
     [10] @ [226, 339, 8230] @ py '' Sequential fix recommended for '' @ str_nat n @
     py '' files''"

definition no_files_need_fixing :: pystr where
  "no_files_need_fixing = [10] @ [226, 339, 8230] @ py '' No files need fixing!''"

text \<open>
  The \<open>if\<close>/\<open>elif\<close>/\<open>else\<close> that closes the \<open>--parallel-fix\<close> branch, on the
  number of files with issues: the \<open>print\<close> calls it makes.
\<close>

definition parallel_fix_closing :: "nat \<Rightarrow> printed list" where
  "parallel_fix_closing n =
     (if n > 5 then
        [Text (parallel_fix_recommended n),
         Text (py ''Execute with parallel agents for faster fixing'')]
      else if n > 0 then
        [Text (sequential_fix_recommended n),
         Text (py ''Small number of files can be fixed sequentially'')]
      else [Text no_files_need_fixing])"

text \<open>
  The block \<open># Analyze files\<close> of \<open>main\<close>: the issues of the path, and the lines
  printed to \<open>sys.stderr\<close> on the way.
\<close>

definition analyze_path ::
  "parser \<Rightarrow> filesystem \<Rightarrow> arguments \<Rightarrow> SilentExceptionIssue list \<times> pystr list" where
  "analyze_path ast_parse fs args =
     (if path_is_file fs then analyze_file ast_parse (path_file fs)
      else analyze_directory ast_parse (path_rglob_py fs)
             (Some (default_exclude_patterns @ exclude args)))"

text \<open>\<open>main\<close>.\<close>

definition main :: "parser \<Rightarrow> filesystem \<Rightarrow> arguments \<Rightarrow> outcome" where
  "main ast_parse fs args =
     (if \<not> path_exists fs then
        \<lparr>stdout = [],
         stderr = [py ''Error: Path '' @ path_arg args @ py '' does not exist''],
         exit_status = 1\<rparr>
      else
        (case analyze_path ast_parse fs args of
           (issues, err) \<Rightarrow>
             if files_only args then
               \<lparr>stdout = map Text (get_files_with_issues issues),
                stderr = err,
                exit_status = int (length issues)\<rparr>
             else if parallel_fix args then
               (let files = get_files_with_issues issues in
                \<lparr>stdout =
                   [Text (py ''Found '' @ str_nat (length issues) @ py '' issues in '' @
                          str_nat (length files) @ py '' files:'')] @
                   map (\<lambda>path. Text (py ''  '' @ path)) files @
                   parallel_fix_closing (length files),
                 stderr = err,
                 exit_status = int (length issues)\<rparr>)
             else
               \<lparr>stdout =
                  [if json args then
                     JsonDump
                       \<lparr>json_issues = issues,
                        total_count = length issues,
                        files_with_issues = get_files_with_issues issues,
                        files_count = length (get_files_with_issues issues),
                        summary = issue_counts issues\<rparr>
                   else Text (format_issue_report issues (\<not> no_snippets args))],
                stderr = err,
                exit_status = int (length issues)\<rparr>))"

section \<open>Example inputs\<close>

text \<open>A visitor for a four-line file, and handlers as the parser would build them.\<close>

definition example_visitor :: SilentExceptionVisitor where
  "example_visitor =
     init_visitor (py ''a.py'')
       [py ''try:'', py ''    x()'', py ''except Exception as e:'',
        py ''    logger.error(str(e))'']"

text \<open>\<open>except Exception as e: logger.error(str(e))\<close>\<close>

definition example_logging_handler :: node where
  "example_logging_handler =
     ExceptHandler 3 (Some 0) (Some (Name (py ''Exception'') Load)) (Some (py ''e''))
       [Other (py ''Expr'')
          [Call (Attribute (Name (py ''logger'') Load) (py ''error'') Load)
             [Call (Name (py ''str'') Load) [Name (py ''e'') Load] []] []]]"

text \<open>\<open>except: pass\<close>\<close>

definition example_bare_handler :: node where
  "example_bare_handler = ExceptHandler 3 (Some 0) None None [Pass]"

text \<open>\<open>except Exception: pass\<close>\<close>

definition example_broad_handler :: node where
  "example_broad_handler =
     ExceptHandler 3 (Some 0) (Some (Name (py ''Exception'') Load)) None [Pass]"

text \<open>\<open>except ValueError:\<close> with an assignment as its body.\<close>

definition example_quiet_handler :: node where
  "example_quiet_handler =
     ExceptHandler 3 (Some 0) (Some (Name (py ''ValueError'') Load)) None
       [Other (py ''Assign'') [Name (py ''y'') Store, Other (py ''Constant'') []]]"

text \<open>
  A module with a function whose \<open>try\<close> has a bare handler (line 4), and inside that
  handler's body a second \<open>try\<close> with the handler \<open>except Exception: pass\<close> (line 7).
\<close>

definition example_module :: node where
  "example_module =
     Other (py ''Module'')
       [Other (py ''FunctionDef'')
          [Other (py ''arguments'') [],
           Other (py ''Try'')
             [Other (py ''Expr'') [Call (Name (py ''x'') Load) [] []],
              ExceptHandler 4 (Some 4) None None
                [Other (py ''Try'')
                   [Other (py ''Expr'') [Call (Name (py ''y'') Load) [] []],
                    ExceptHandler 7 (Some 8) (Some (Name (py ''Exception'') Load)) None
                      [Pass]]]]]]"




text \<open>
  A parser that rejects the text \<open>def\<close> and parses every other text to the example
  module; three files, the second of which does not parse; a directory holding them.
\<close>

definition example_parser :: parser where
  "example_parser source_code filename =
     (if source_code = py ''def'' then Inl (SyntaxError (py ''invalid syntax''))
      else Inr example_module)"

definition example_file_a :: source_file where
  "example_file_a = \<lparr>path_str = py ''a.py'', read_text = Inr (py ''ok'')\<rparr>"

definition example_file_bad :: source_file where
  "example_file_bad = \<lparr>path_str = py ''bad.py'', read_text = Inr (py ''def'')\<rparr>"

definition example_file_b :: source_file where
  "example_file_b = \<lparr>path_str = py ''b.py'', read_text = Inr (py ''ok'')\<rparr>"


definition example_empty_directory :: filesystem where
  "example_empty_directory =
     \<lparr>path_exists = True, path_is_file = False, path_file = example_file_a,
      path_rglob_py = []\<rparr>"

definition example_arguments :: arguments where
  "example_arguments =
     \<lparr>path_arg = py ''src'', no_snippets = False, exclude = [], json = False,
      files_only = False, parallel_fix = False\<rparr>"

section \<open>Properties of the traversal and of the classification\<close>

text \<open>The text functions on examples.\<close>

lemma str_int_examples:
  "str_nat 0 = py ''0''" "str_nat 2024 = py ''2024''" "str_int (- 15) = py ''-15''"
  "format_3d 7 = py ''  7''" "format_3d 1234 = py ''1234''"
  by code_simp+

lemma splitlines_examples:
  "splitlines (py ''ab'' @ [13, 10] @ py ''cd'' @ [10, 10] @ py ''e'' @ [10]) =
     [py ''ab'', py ''cd'', [], py ''e'']"
  "splitlines [] = []"
  "split_on 10 (py ''a'' @ [10] @ py ''b'' @ [10]) = [py ''a'', py ''b'', []]"
  "rstrip (py ''x = 1  '' @ [9, 13]) = py ''x = 1''"
  "join [10] [py ''a'', py ''b''] = py ''a'' @ [10] @ py ''b''"
  by code_simp+

lemma str_contains_examples:
  "str_contains (py ''src/.venv/lib/a.py'') (py ''.venv'')"
  "\<not> str_contains (py ''src/a.py'') (py ''.git'')"
  "str_contains (py ''a.py'') []"
  by code_simp+

text \<open>The four tests of the loop are the recovery signals.\<close>

lemma is_logging_call_iff:
  "is_logging_call n \<longleftrightarrow>
     (\<exists>receiver a c as ks.
        n = Call (Attribute receiver a c) as ks \<and>
        a \<in> {py ''debug'', py ''info'', py ''warning'', py ''error'', py ''critical'',
             py ''exception''})"
proof (cases n)
  case (Call f as ks)
  then show ?thesis
    by (cases f) (simp_all add: is_logging_call_def)
qed (simp_all add: is_logging_call_def)

lemma is_print_call_iff:
  "is_print_call n \<longleftrightarrow> (\<exists>c as ks. n = Call (Name (py ''print'') c) as ks)"
proof (cases n)
  case (Call f as ks)
  then show ?thesis
    by (cases f) (auto simp: is_print_call_def)
qed (simp_all add: is_print_call_def)

lemma is_Raise_iff: "is_Raise n \<longleftrightarrow> (\<exists>exc cause. n = Raise exc cause)"
  by (cases n) (simp_all add: is_Raise_def)

lemma is_Return_iff: "is_Return n \<longleftrightarrow> (\<exists>v. n = Return v)"
  by (cases n) (simp_all add: is_Return_def)

lemma recovery_signal_code:
  "recovery_signal n \<longleftrightarrow> is_logging_call n \<or> is_print_call n \<or> is_Raise n \<or> is_Return n"
  unfolding recovery_signal_def is_logging_call_iff is_print_call_iff is_Raise_iff is_Return_iff
  by (rule refl)

lemma loop_iff: "has_logging_or_reraise_loop xs \<longleftrightarrow> (\<exists>n\<in>set xs. recovery_signal n)"
  by (induction xs) (auto simp: recovery_signal_code)

lemma mset_subtree_nodes:
  "mset (subtree_nodes n) = add_mset n (mset (concat (map subtree_nodes (iter_child_nodes n))))"
  by (subst subtree_nodes.simps) simp

lemma mset_walk_loop: "mset (walk_loop todo) = mset (concat (map subtree_nodes todo))"
proof (induction todo rule: walk_loop.induct)
  case 1
  then show ?case by simp
next
  case (2 n todo)
  then show ?case
    by (simp add: mset_subtree_nodes)
qed

lemma set_walk: "set (walk n) = set (subtree_nodes n)"
proof -
  have "mset (walk n) = mset (subtree_nodes n)"
    unfolding walk_def mset_walk_loop by simp
  then show ?thesis by (rule mset_eq_setD)
qed

lemma new_issue_cong:
  "self_file_path s1 = self_file_path s2 \<Longrightarrow> self_source_lines s1 = self_source_lines s2 \<Longrightarrow>
   new_issue s1 l c t d = new_issue s2 l c t d"
  by (simp add: new_issue_def get_code_snippet_def)

lemma append_issue_fields [simp]:
  "self_file_path (append_issue self l c t d) = self_file_path self"
  "self_source_lines (append_issue self l c t d) = self_source_lines self"
  "self_issues (append_issue self l c t d) = self_issues self @ [new_issue self l c t d]"
  by (simp_all add: append_issue_def)

lemma new_issue_append_issue [simp]:
  "new_issue (append_issue self l c t d) l' c' t' d' = new_issue self l' c' t' d'"
  by (rule new_issue_cong) simp_all

lemma check_ExceptHandler_fields [simp]:
  "self_file_path (check_ExceptHandler self node) = self_file_path self"
  "self_source_lines (check_ExceptHandler self node) = self_source_lines self"
proof -
  show "self_file_path (check_ExceptHandler self node) = self_file_path self"
  proof (cases "type node")
    case None
    then show ?thesis by (simp add: check_ExceptHandler_def Let_def)
  next
    case (Some t)
    then show ?thesis by (cases t) (simp_all add: check_ExceptHandler_def Let_def)
  qed
  show "self_source_lines (check_ExceptHandler self node) = self_source_lines self"
  proof (cases "type node")
    case None
    then show ?thesis by (simp add: check_ExceptHandler_def Let_def)
  next
    case (Some t)
    then show ?thesis by (cases t) (simp_all add: check_ExceptHandler_def Let_def)
  qed
qed

lemma map_issue_type_check:
  "map issue_type (self_issues (check_ExceptHandler self node)) =
     map issue_type (self_issues self) @
     (if type node = None then [py ''bare_except'']
      else if is_broad_type (type node) \<and> is_silent_handler node then [py ''broad_exception'']
      else []) @
     (if is_empty_handler node then [py ''empty_except'']
      else if is_pass_only_handler node then [py ''pass_only'']
      else [])"
proof (cases "type node")
  case None
  then show ?thesis by (simp add: check_ExceptHandler_def Let_def new_issue_def)
next
  case (Some t)
  then show ?thesis
    by (cases t) (simp_all add: check_ExceptHandler_def Let_def new_issue_def is_broad_type_def)
qed


lemma check_ExceptHandler_prefix:
  "\<exists>new. self_issues (check_ExceptHandler self node) = self_issues self @ new"
proof (cases "type node")
  case None
  then show ?thesis by (simp add: check_ExceptHandler_def Let_def)
next
  case (Some t)
  then show ?thesis by (cases t) (simp_all add: check_ExceptHandler_def Let_def)
qed

lemma issues_check_ExceptHandler:
  "self_issues (check_ExceptHandler self node) = self_issues self @ handler_issues self node"
  using check_ExceptHandler_prefix [of self node] by (auto simp: handler_issues_def)

lemma handler_issues_cong:
  assumes "self_file_path s1 = self_file_path s2" "self_source_lines s1 = self_source_lines s2"
  shows "handler_issues s1 node = handler_issues s2 node"
proof -
  have n: "\<And>l c t d. new_issue s1 l c t d = new_issue s2 l c t d"
    using assms by (rule new_issue_cong)
  show ?thesis
  proof (cases "type node")
    case None
    then show ?thesis by (simp add: handler_issues_def check_ExceptHandler_def Let_def n)
  next
    case (Some t)
    then show ?thesis
      by (cases t) (simp_all add: handler_issues_def check_ExceptHandler_def Let_def n)
  qed
qed

lemma handler_issues_types:
  "map issue_type (handler_issues self node) =
     (if type node = None then [py ''bare_except'']
      else if is_broad_type (type node) \<and> is_silent_handler node then [py ''broad_exception'']
      else []) @
     (if is_empty_handler node then [py ''empty_except'']
      else if is_pass_only_handler node then [py ''pass_only'']
      else [])"
proof -
  have "map issue_type (handler_issues self node) =
        drop (length (map issue_type (self_issues self)))
          (map issue_type (self_issues (check_ExceptHandler self node)))"
    by (simp add: handler_issues_def drop_map)
  then show ?thesis
    unfolding map_issue_type_check by simp
qed

lemma handler_issues_position:
  assumes "i \<in> set (handler_issues self node)"
  shows "file_path i = self_file_path self \<and> line_number i = lineno node"
proof (cases "type node")
  case None
  then show ?thesis using assms
    by (auto simp: handler_issues_def check_ExceptHandler_def Let_def new_issue_def split: if_splits)
next
  case (Some t)
  then show ?thesis using assms
    by (cases t) (auto simp: handler_issues_def check_ExceptHandler_def Let_def new_issue_def split: if_splits)
qed

lemma emitted_in_cong:
  assumes "self_file_path s1 = self_file_path s2" "self_source_lines s1 = self_source_lines s2"
  shows "emitted_in s1 = emitted_in s2"
proof -
  have "handler_issues s1 = handler_issues s2"
    using assms by (intro ext) (rule handler_issues_cong)
  then show ?thesis
    by (intro ext) (simp add: emitted_in_def)
qed

lemma emitted_in_append: "emitted_in self (xs @ ys) = emitted_in self xs @ emitted_in self ys"
  by (simp add: emitted_in_def)

lemma emitted_in_subtree_nodes:
  "emitted_in self (subtree_nodes node) =
     (if is_ExceptHandler node then handler_issues self node else []) @
     emitted_in self (concat (map subtree_nodes (iter_child_nodes node)))"
  by (subst subtree_nodes.simps) (simp add: emitted_in_def)

lemma visit_dispatch:
  "visit self node =
     (if is_ExceptHandler node then visit_ExceptHandler self node else generic_visit self node)"
  by (cases node) (simp_all add: visit.simps is_ExceptHandler_def)

lemma visit_all:
  "self_issues (visit self node) = self_issues self @ emitted_in self (subtree_nodes node) \<and>
     self_file_path (visit self node) = self_file_path self \<and>
     self_source_lines (visit self node) = self_source_lines self"
  "self_issues (visit_ExceptHandler self node) =
     self_issues self @ handler_issues self node @
       emitted_in self (concat (map subtree_nodes (iter_child_nodes node))) \<and>
     self_file_path (visit_ExceptHandler self node) = self_file_path self \<and>
     self_source_lines (visit_ExceptHandler self node) = self_source_lines self"
  "self_issues (generic_visit self node) =
     self_issues self @ emitted_in self (concat (map subtree_nodes (iter_child_nodes node))) \<and>
     self_file_path (generic_visit self node) = self_file_path self \<and>
     self_source_lines (generic_visit self node) = self_source_lines self"
  "self_issues (generic_visit_loop self todo) =
     self_issues self @ emitted_in self (concat (map subtree_nodes todo)) \<and>
     self_file_path (generic_visit_loop self todo) = self_file_path self \<and>
     self_source_lines (generic_visit_loop self todo) = self_source_lines self"
proof (induction self node and self node and self node and self todo
       rule: visit_visit_ExceptHandler_generic_visit_generic_visit_loop.induct)
  case (1 self node)
  show ?case
  proof (cases "is_ExceptHandler node")
    case True
    then obtain ln col ty nm bd where "node = ExceptHandler ln col ty nm bd"
      by (cases node) (simp_all add: is_ExceptHandler_def)
    then have "self_issues (visit_ExceptHandler self node) =
     self_issues self @ handler_issues self node @
       emitted_in self (concat (map subtree_nodes (iter_child_nodes node))) \<and>
     self_file_path (visit_ExceptHandler self node) = self_file_path self \<and>
     self_source_lines (visit_ExceptHandler self node) = self_source_lines self"
      by (rule "1.IH"(1))
    with True show ?thesis
      by (simp add: visit_dispatch emitted_in_subtree_nodes)
  next
    case False
    then have "self_issues (generic_visit self node) =
     self_issues self @ emitted_in self (concat (map subtree_nodes (iter_child_nodes node))) \<and>
     self_file_path (generic_visit self node) = self_file_path self \<and>
     self_source_lines (generic_visit self node) = self_source_lines self"
      using "1.IH"(2-) by (cases node) (simp_all add: is_ExceptHandler_def)
    with False show ?thesis
      by (simp add: visit_dispatch emitted_in_subtree_nodes)
  qed
next
  case (2 self node)
  have e: "emitted_in (check_ExceptHandler self node) = emitted_in self"
    by (rule emitted_in_cong) simp_all
  show ?case
    using 2 by (simp add: visit_ExceptHandler.simps issues_check_ExceptHandler e)
next
  case (3 self node)
  then show ?case by (simp add: generic_visit.simps)
next
  case (4 self)
  then show ?case by (simp add: emitted_in_def)
next
  case (5 self child rest)
  have e: "emitted_in (visit self child) = emitted_in self"
    using 5(1) by (intro emitted_in_cong) simp_all
  show ?case
    using 5 by (simp add: e emitted_in_append)
qed

lemma bex_issue_type:
  "(\<exists>x\<in>set xs. issue_type x = t) \<longleftrightarrow> t \<in> set (map issue_type xs)"
  by (induction xs) auto

lemma has_logging_or_reraise_iff:
  "has_logging_or_reraise node \<longleftrightarrow> (\<exists>n\<in>set (subtree_nodes node). recovery_signal n)"
  by (simp add: has_logging_or_reraise_def loop_iff set_walk)

lemma subtree_nodes_Ctx: "subtree_nodes (Ctx c) = [Ctx c]"
  by (subst subtree_nodes.simps) simp

lemma subtree_nodes_Name: "subtree_nodes (Name i c) = [Name i c, Ctx c]"
  by (subst subtree_nodes.simps) (simp add: subtree_nodes_Ctx)

lemma subtree_nodes_Pass: "subtree_nodes Pass = [Pass]"
  by (subst subtree_nodes.simps) simp

lemma subtree_nodes_ExceptHandler:
  "subtree_nodes (ExceptHandler ln col ty nm bd) =
     ExceptHandler ln col ty nm bd #
       (case ty of None \<Rightarrow> [] | Some t \<Rightarrow> subtree_nodes t) @ concat (map subtree_nodes bd)"
  by (subst subtree_nodes.simps) (simp split: option.split)

text \<open>
  An empty or pass-only handler with a name as its filter has no recovery signal, so for
  such a filter \<open>_is_silent_handler\<close> is the negation of \<open>_has_logging_or_reraise\<close>.
\<close>

lemma empty_or_pass_only_body:
  assumes "is_empty_handler (ExceptHandler ln col ty nm bd) \<or>
           is_pass_only_handler (ExceptHandler ln col ty nm bd)"
  shows "bd = [] \<or> bd = [Pass]"
  using assms by (cases bd) (auto simp: is_empty_handler_def is_pass_only_handler_def)

lemma no_signal_without_body:
  assumes "bd = [] \<or> bd = [Pass]"
  shows "\<not> (\<exists>n\<in>set (subtree_nodes (ExceptHandler ln col (Some (Name i c)) nm bd)).
             recovery_signal n)"
  using assms
  by (auto simp: subtree_nodes_ExceptHandler subtree_nodes_Name subtree_nodes_Pass
      recovery_signal_code is_logging_call_def is_print_call_def is_Raise_def is_Return_def)

lemma is_silent_handler_Name:
  "is_silent_handler (ExceptHandler ln col (Some (Name i c)) nm bd) \<longleftrightarrow>
     \<not> (\<exists>n\<in>set (subtree_nodes (ExceptHandler ln col (Some (Name i c)) nm bd)).
          recovery_signal n)"
  using no_signal_without_body [of bd ln col i c nm]
    empty_or_pass_only_body [of ln col "Some (Name i c)" nm bd]
  unfolding is_silent_handler_def has_logging_or_reraise_iff by blast

lemma broad_type_issue:
  assumes "is_broad_type (type node)"
  shows "py ''broad_exception'' \<in> set (map issue_type (handler_issues self node)) \<longleftrightarrow>
         is_silent_handler node"
proof -
  from assms have "type node \<noteq> None"
    by (auto simp: is_broad_type_def split: option.splits)
  with assms show ?thesis
    unfolding handler_issues_types by auto
qed

section \<open>Properties of the aggregation\<close>

text \<open>Sorted items of a dict are determined by the dict as a map.\<close>

lemma sorted_items_canonical:
  fixes d :: "('k::linorder \<times> 'v) list"
  assumes "distinct (map fst d)"
  shows "sort_key fst d =
           map (\<lambda>k. (k, the (map_of d k))) (sorted_list_of_set (fst ` set d))"
proof -
  let ?l = "sort_key fst d"
  have "mset (map fst ?l) = mset (map fst d)"
    by simp
  then have "distinct (map fst ?l)"
    using assms by (metis mset_eq_imp_distinct_iff)
  moreover have "sorted (map fst ?l)" by simp
  moreover have "set (map fst ?l) = fst ` set d" by simp
  ultimately have keys: "map fst ?l = sorted_list_of_set (fst ` set d)"
    by (metis List.finite_set distinct_sorted_list_of_set set_map set_sort
        sorted_distinct_set_unique sorted_list_of_set.set_sorted_key_list_of_set
        sorted_sorted_list_of_set)
  have "map (\<lambda>x. (fst x, the (map_of d (fst x)))) ?l = ?l"
  proof (rule map_idI)
    fix x assume "x \<in> set ?l"
    then have "x \<in> set d" by simp
    then have "map_of d (fst x) = Some (snd x)"
      using assms by simp
    then show "(fst x, the (map_of d (fst x))) = x" by simp
  qed
  then have "?l = map (\<lambda>k. (k, the (map_of d k))) (map fst ?l)"
    by (simp add: comp_def)
  then show ?thesis
    unfolding keys .
qed

lemma by_file_step_map_of:
  "map_of (by_file_step d i) =
     (map_of d)(file_path i \<mapsto>
        (case map_of d (file_path i) of None \<Rightarrow> [] | Some v \<Rightarrow> v) @ [i])"
  by (simp add: by_file_step_def update_conv')

lemma by_file_step_distinct:
  "distinct (map fst d) \<Longrightarrow> distinct (map fst (by_file_step d i))"
  by (simp add: by_file_step_def distinct_update)

lemma foldl_by_file_step:
  assumes "distinct (map fst d)"
  shows "distinct (map fst (foldl by_file_step d xs)) \<and>
         (\<forall>p. map_of (foldl by_file_step d xs) p =
            (case map_of d p of
               None \<Rightarrow> (if filter (\<lambda>i. file_path i = p) xs = [] then None
                         else Some (filter (\<lambda>i. file_path i = p) xs))
             | Some v \<Rightarrow> Some (v @ filter (\<lambda>i. file_path i = p) xs)))"
  using assms
proof (induction xs arbitrary: d)
  case Nil
  then show ?case by (simp split: option.split)
next
  case (Cons x xs)
  have "distinct (map fst (by_file_step d x))"
    using Cons.prems by (rule by_file_step_distinct)
  from Cons.IH [OF this] show ?case
    by (auto simp: by_file_step_map_of split: option.splits)
qed

lemma group_by_file_distinct: "distinct (map fst (group_by_file xs))"
  using foldl_by_file_step [of "[]" xs] by (simp add: group_by_file_def)

lemma group_by_file_map_of:
  "map_of (group_by_file xs) p =
     (if filter (\<lambda>i. file_path i = p) xs = [] then None
      else Some (filter (\<lambda>i. file_path i = p) xs))"
  using foldl_by_file_step [of "[]" xs] by (simp add: group_by_file_def)

lemma group_by_file_keys: "fst ` set (group_by_file xs) = file_path ` set xs"
proof -
  have "fst ` set (group_by_file xs) = dom (map_of (group_by_file xs))"
    by (simp add: dom_map_of_conv_image_fst)
  also have "\<dots> = file_path ` set xs"
    by (auto simp: dom_def group_by_file_map_of filter_empty_conv)
  finally show ?thesis .
qed

lemma report_sections_canonical:
  "report_sections xs =
     map (\<lambda>p. (p, sort_key line_number (filter (\<lambda>i. file_path i = p) xs)))
       (sorted_list_of_set (file_path ` set xs))"
proof -
  have "sort_key fst (group_by_file xs) =
          map (\<lambda>k. (k, the (map_of (group_by_file xs) k)))
            (sorted_list_of_set (file_path ` set xs))"
    using sorted_items_canonical [OF group_by_file_distinct, of xs]
    by (simp add: group_by_file_keys)
  also have "\<dots> = map (\<lambda>p. (p, filter (\<lambda>i. file_path i = p) xs))
            (sorted_list_of_set (file_path ` set xs))"
    by (rule map_cong) (auto simp: group_by_file_map_of filter_empty_conv)
  finally show ?thesis
    by (simp add: report_sections_def comp_def)
qed

lemma issue_counts_step_map_of:
  "map_of (issue_counts_step d i) =
     (map_of d)(issue_type i \<mapsto>
        (case map_of d (issue_type i) of None \<Rightarrow> 0 | Some n \<Rightarrow> n) + 1)"
  by (simp add: issue_counts_step_def update_conv')

lemma issue_counts_step_distinct:
  "distinct (map fst d) \<Longrightarrow> distinct (map fst (issue_counts_step d i))"
  by (simp add: issue_counts_step_def distinct_update)

lemma foldl_issue_counts_step:
  assumes "distinct (map fst d)"
  shows "distinct (map fst (foldl issue_counts_step d xs)) \<and>
         (\<forall>t. map_of (foldl issue_counts_step d xs) t =
            (case map_of d t of
               None \<Rightarrow> (if filter (\<lambda>i. issue_type i = t) xs = [] then None
                         else Some (length (filter (\<lambda>i. issue_type i = t) xs)))
             | Some n \<Rightarrow> Some (n + length (filter (\<lambda>i. issue_type i = t) xs))))"
  using assms
proof (induction xs arbitrary: d)
  case Nil
  then show ?case by (simp split: option.split)
next
  case (Cons x xs)
  have "distinct (map fst (issue_counts_step d x))"
    using Cons.prems by (rule issue_counts_step_distinct)
  from Cons.IH [OF this] show ?case
    by (auto simp: issue_counts_step_map_of split: option.splits)
qed


lemma issue_counts_map_of:
  "map_of (issue_counts xs) t =
     (if filter (\<lambda>i. issue_type i = t) xs = [] then None
      else Some (length (filter (\<lambda>i. issue_type i = t) xs)))"
  using foldl_issue_counts_step [of "[]" xs] by (simp add: issue_counts_def)

lemma issue_counts_mset:
  assumes "mset xs = mset ys"
  shows "map_of (issue_counts xs) = map_of (issue_counts ys)"
proof
  fix t
  have "mset (filter (\<lambda>i. issue_type i = t) xs) = mset (filter (\<lambda>i. issue_type i = t) ys)"
    using assms by simp
  then have "length (filter (\<lambda>i. issue_type i = t) xs) = length (filter (\<lambda>i. issue_type i = t) ys)"
    by (rule mset_eq_length)
  then show "map_of (issue_counts xs) t = map_of (issue_counts ys) t"
    unfolding issue_counts_map_of by (metis length_0_conv)
qed



lemma foldl_insert_file_path:
  "foldl (\<lambda>files issue. insert (file_path issue) files) A xs = A \<union> file_path ` set xs"
  by (induction xs arbitrary: A) auto

lemma get_files_with_issues_eq:
  "get_files_with_issues xs = sorted_list_of_set (file_path ` set xs)"
  by (simp add: get_files_with_issues_def foldl_insert_file_path)

text \<open>No issue is lost by the grouping.\<close>

lemma mset_update_append:
  assumes "distinct (map fst d)"
  shows "mset (concat (map snd (AList.update k ((case map_of d k of None \<Rightarrow> [] | Some v \<Rightarrow> v) @ [i]) d))) =
         add_mset i (mset (concat (map snd d)))"
  using assms
proof (induction d)
  case Nil
  then show ?case by simp
next
  case (Cons a d)
  then show ?case
    by (cases a) (auto simp: image_iff map_of_eq_None_iff split: option.splits)
qed

lemma mset_foldl_by_file_step:
  assumes "distinct (map fst d)"
  shows "mset (concat (map snd (foldl by_file_step d xs))) = mset (concat (map snd d)) + mset xs"
  using assms
proof (induction xs arbitrary: d)
  case Nil
  then show ?case by simp
next
  case (Cons x xs)
  have "distinct (map fst (by_file_step d x))"
    using Cons.prems by (rule by_file_step_distinct)
  from Cons.IH [OF this] show ?case
    using Cons.prems by (simp add: by_file_step_def mset_update_append)
qed

lemma mset_group_by_file: "mset (concat (map snd (group_by_file xs))) = mset xs"
  using mset_foldl_by_file_step [of "[]" xs] by (simp add: group_by_file_def)

text \<open>Lists with the same issues per file, in the same order per file.\<close>

lemma same_per_file_mset:
  assumes "\<And>p. filter (\<lambda>i. file_path i = p) ys = filter (\<lambda>i. file_path i = p) xs"
  shows "mset ys = mset xs"
proof (rule multiset_eqI)
  fix i
  have "count (mset ys) i = count (mset (filter (\<lambda>j. file_path j = file_path i) ys)) i"
    by simp
  also have "\<dots> = count (mset (filter (\<lambda>j. file_path j = file_path i) xs)) i"
    by (simp only: assms)
  also have "\<dots> = count (mset xs) i"
    by simp
  finally show "count (mset ys) i = count (mset xs) i" .
qed

lemma same_per_file_report_sections:
  assumes "\<And>p. filter (\<lambda>i. file_path i = p) ys = filter (\<lambda>i. file_path i = p) xs"
  shows "report_sections ys = report_sections xs"
proof -
  have "set ys = set xs"
    using same_per_file_mset [of ys xs] assms by (metis mset_eq_setD)
  then show ?thesis
    by (simp add: report_sections_canonical assms)
qed


section \<open>Properties of the analysis of files\<close>

lemma visit_file_path:
  assumes "i \<in> set (self_issues (visit (init_visitor path source_lines) tree))"
  shows "file_path i = path"
proof -
  let ?v = "init_visitor path source_lines"
  have "self_issues (visit ?v tree) = emitted_in ?v (subtree_nodes tree)"
    using visit_all(1) [of ?v tree] by (simp add: init_visitor_def)
  with assms obtain h where "i \<in> set (handler_issues ?v h)"
    by (auto simp: emitted_in_def)
  then have "file_path i = self_file_path ?v"
    using handler_issues_position by blast
  then show ?thesis
    by (simp add: init_visitor_def)
qed

lemma analyze_file_file_path:
  assumes "i \<in> set (fst (analyze_file ast_parse file))"
  shows "file_path i = path_str file"
  using assms
  by (auto simp: analyze_file_def analyze_file_except_def Let_def visit_file_path
      split: sum.splits py_exception.splits)

lemma foldl_analyze_directory_step:
  "foldl (analyze_directory_step ast_parse ps) (acc, printed) files =
     (acc @ concat (map (\<lambda>f. fst (analyze_file ast_parse f))
                     (filter (\<lambda>f. \<not> excluded ps f) files)),
      printed @ concat (map (\<lambda>f. snd (analyze_file ast_parse f))
                         (filter (\<lambda>f. \<not> excluded ps f) files)))"
proof (induction files arbitrary: acc printed)
  case Nil
  then show ?case by simp
next
  case (Cons f files)
  show ?case
  proof (cases "excluded ps f")
    case True
    then show ?thesis
      using Cons.IH [of acc printed]
      by (simp add: analyze_directory_step_def)
  next
    case False
    obtain fi ls where a: "analyze_file ast_parse f = (fi, ls)"
      by (cases "analyze_file ast_parse f")
    with False show ?thesis
      using Cons.IH [of "acc @ fi" "printed @ ls"]
      by (simp add: analyze_directory_step_def)
  qed
qed

lemma analyze_directory_eq:
  "analyze_directory ast_parse files (Some ps) =
     (concat (map (\<lambda>f. fst (analyze_file ast_parse f)) (filter (\<lambda>f. \<not> excluded ps f) files)),
      concat (map (\<lambda>f. snd (analyze_file ast_parse f)) (filter (\<lambda>f. \<not> excluded ps f) files)))"
  by (simp add: analyze_directory_def foldl_analyze_directory_step)

section \<open>Properties of the entry point, and the example inputs evaluated\<close>

lemma different_files_filter:
  assumes "\<forall>i\<in>set xs. file_path i = pa" "\<forall>i\<in>set ys. file_path i = pb" "pa \<noteq> pb"
  shows "filter (\<lambda>i. file_path i = q) (xs @ ys) = filter (\<lambda>i. file_path i = q) (ys @ xs)"
proof -
  have "filter (\<lambda>i. file_path i = q) xs = [] \<or> filter (\<lambda>i. file_path i = q) ys = []"
    using assms by (auto simp: filter_empty_conv)
  then show ?thesis by auto
qed

lemma example_module_issue_types:
  assumes "self_issues v = []"
  shows "map issue_type (self_issues (visit v example_module)) =
           [py ''bare_except'', py ''broad_exception'', py ''pass_only'']"
proof -
  have h: "filter is_ExceptHandler (subtree_nodes example_module) =
     [ExceptHandler 4 (Some 4) None None
        [Other (py ''Try'')
           [Other (py ''Expr'') [Call (Name (py ''y'') Load) [] []],
            ExceptHandler 7 (Some 8) (Some (Name (py ''Exception'') Load)) None [Pass]]],
      ExceptHandler 7 (Some 8) (Some (Name (py ''Exception'') Load)) None [Pass]]"
    by code_simp
  have "self_issues (visit v example_module) =
          concat (map (handler_issues v) (filter is_ExceptHandler (subtree_nodes example_module)))"
    using visit_all(1) [of v example_module] assms by (simp add: emitted_in_def)
  then show ?thesis
    unfolding h
    by (simp add: handler_issues_types is_broad_type_def is_silent_handler_def
        is_empty_handler_def is_pass_only_handler_def)
qed

lemma example_file_issue_types:
  assumes "read_text f = Inr (py ''ok'')"
  shows "map issue_type (fst (analyze_file example_parser f)) =
           [py ''bare_except'', py ''broad_exception'', py ''pass_only'']"
  using assms
  by (simp add: analyze_file_def example_parser_def example_module_issue_types init_visitor_def)




lemma parallel_fix_stdout:
  assumes "path_exists fs" "parallel_fix args" "\<not> files_only args"
  shows "stdout (main ast_parse fs args) =
     [Text (py ''Found '' @ str_nat (length (fst (analyze_path ast_parse fs args))) @
            py '' issues in '' @
            str_nat (length (get_files_with_issues (fst (analyze_path ast_parse fs args)))) @
            py '' files:'')] @
     map (\<lambda>path. Text (py ''  '' @ path))
       (get_files_with_issues (fst (analyze_path ast_parse fs args))) @
     parallel_fix_closing (length (get_files_with_issues (fst (analyze_path ast_parse fs args))))"
proof -
  obtain found err where a: "analyze_path ast_parse fs args = (found, err)"
    by (cases "analyze_path ast_parse fs args")
  show ?thesis
    using assms by (simp add: main_def a Let_def)
qed

lemma files_only_stdout:
  assumes "path_exists fs" "files_only args"
  shows "stdout (main ast_parse fs args) =
           map Text (get_files_with_issues (fst (analyze_path ast_parse fs args)))"
proof -
  obtain found err where a: "analyze_path ast_parse fs args = (found, err)"
    by (cases "analyze_path ast_parse fs args")
  show ?thesis
    using assms by (simp add: main_def a Let_def)
qed

text \<open>The closing messages begin with a line feed; the lines before them do not.\<close>

lemma closing_message_heads:
  "hd (parallel_fix_recommended m) = 10"
  "hd (sequential_fix_recommended m) = 10"
  "hd no_files_need_fixing = 10"
  by (simp_all add: parallel_fix_recommended_def sequential_fix_recommended_def
      no_files_need_fixing_def)

lemma closing_message_position:
  assumes "hd msg = 10"
  shows "Text msg \<in> set ([Text (py ''Found '' @ a @ py '' issues in '' @ b @ py '' files:'')] @
                          map (\<lambda>path. Text (py ''  '' @ path)) files @ closing) \<longleftrightarrow>
         Text msg \<in> set closing"
  using assms by auto

lemma parallel_fix_closing_parallel:
  "(\<exists>m. Text (parallel_fix_recommended m) \<in> set (parallel_fix_closing n)) \<longleftrightarrow> 5 < n"
proof
  assume "\<exists>m. Text (parallel_fix_recommended m) \<in> set (parallel_fix_closing n)"
  then show "5 < n"
    by (auto simp: parallel_fix_closing_def parallel_fix_recommended_def
        sequential_fix_recommended_def no_files_need_fixing_def split: if_splits)
next
  assume "5 < n"
  then have "Text (parallel_fix_recommended n) \<in> set (parallel_fix_closing n)"
    by (simp add: parallel_fix_closing_def)
  then show "\<exists>m. Text (parallel_fix_recommended m) \<in> set (parallel_fix_closing n)" ..
qed

lemma parallel_fix_closing_sequential:
  "(\<exists>m. Text (sequential_fix_recommended m) \<in> set (parallel_fix_closing n)) \<longleftrightarrow>
     0 < n \<and> n \<le> 5"
proof
  assume "\<exists>m. Text (sequential_fix_recommended m) \<in> set (parallel_fix_closing n)"
  then show "0 < n \<and> n \<le> 5"
    by (auto simp: parallel_fix_closing_def parallel_fix_recommended_def
        sequential_fix_recommended_def no_files_need_fixing_def split: if_splits)
next
  assume "0 < n \<and> n \<le> 5"
  then have "Text (sequential_fix_recommended n) \<in> set (parallel_fix_closing n)"
    by (simp add: parallel_fix_closing_def)
  then show "\<exists>m. Text (sequential_fix_recommended m) \<in> set (parallel_fix_closing n)" ..
qed

lemma parallel_fix_closing_none:
  "Text no_files_need_fixing \<in> set (parallel_fix_closing n) \<longleftrightarrow> n = 0"
  by (auto simp: parallel_fix_closing_def parallel_fix_recommended_def
      sequential_fix_recommended_def no_files_need_fixing_def split: if_splits)

section \<open>Claims about the visitor\<close>

text \<open>
  C1. For an exception handler whose filter is the name \<open>Exception\<close> or
  \<open>BaseException\<close>, a \<open>broad_exception\<close> issue is emitted for the handler if and only
  if no node of the handler's subtree (at any depth, the handler and its filter included)
  is a recovery signal: a call of an attribute named \<open>debug\<close>, \<open>info\<close>, \<open>warning\<close>,
  \<open>error\<close>, \<open>critical\<close> or \<open>exception\<close>, a call of the name \<open>print\<close>, a
  \<open>raise\<close> or a \<open>return\<close>.
\<close>

theorem broad_exception_iff_no_recovery_signal:
  assumes "i = py ''Exception'' \<or> i = py ''BaseException''"
  shows "(\<exists>x\<in>set (handler_issues self (ExceptHandler ln col (Some (Name i c)) nm bd)).
            issue_type x = py ''broad_exception'') \<longleftrightarrow>
         \<not> (\<exists>n\<in>set (subtree_nodes (ExceptHandler ln col (Some (Name i c)) nm bd)).
              recovery_signal n)"
proof -
  let ?h = "ExceptHandler ln col (Some (Name i c)) nm bd"
  from assms have "is_broad_type (type ?h)"
    by (simp add: is_broad_type_def)
  then have "py ''broad_exception'' \<in> set (map issue_type (handler_issues self ?h)) \<longleftrightarrow>
        is_silent_handler ?h"
    by (rule broad_type_issue)
  then show ?thesis
    unfolding bex_issue_type is_silent_handler_Name .
qed

theorem broad_exception_iff_no_recovery_signal_witness:
  "\<not> (\<exists>x\<in>set (handler_issues example_visitor example_logging_handler).
          issue_type x = py ''broad_exception'') \<and>
   (\<exists>n\<in>set (subtree_nodes example_logging_handler). recovery_signal n)"
proof -
  have s: "\<exists>n\<in>set (subtree_nodes example_logging_handler). recovery_signal n"
    unfolding recovery_signal_code by code_simp
  have "(\<exists>x\<in>set (handler_issues example_visitor example_logging_handler).
            issue_type x = py ''broad_exception'') \<longleftrightarrow>
         \<not> (\<exists>n\<in>set (subtree_nodes example_logging_handler). recovery_signal n)"
    unfolding example_logging_handler_def
    by (rule broad_exception_iff_no_recovery_signal) simp
  with s show ?thesis by blast
qed



text \<open>
  C3. For one exception handler, an \<open>empty_except\<close> issue and a \<open>pass_only\<close> issue are
  never both emitted.
\<close>

theorem empty_except_excludes_pass_only:
  "\<not> ((\<exists>x\<in>set (handler_issues self (ExceptHandler ln col ty nm bd)).
            issue_type x = py ''empty_except'') \<and>
       (\<exists>y\<in>set (handler_issues self (ExceptHandler ln col ty nm bd)).
            issue_type y = py ''pass_only''))"
  unfolding bex_issue_type handler_issues_types by simp

theorem empty_except_excludes_pass_only_witness:
  "\<not> ((\<exists>x\<in>set (handler_issues example_visitor example_bare_handler).
            issue_type x = py ''empty_except'') \<and>
       (\<exists>y\<in>set (handler_issues example_visitor example_bare_handler).
            issue_type y = py ''pass_only'')) \<and>
   map issue_type (handler_issues example_visitor example_bare_handler) =
     [py ''bare_except'', py ''pass_only'']"
proof -
  have "map issue_type (handler_issues example_visitor example_bare_handler) =
     [py ''bare_except'', py ''pass_only'']"
    by (simp add: handler_issues_types example_bare_handler_def is_empty_handler_def
        is_pass_only_handler_def)
  then show ?thesis
    using empty_except_excludes_pass_only [of example_visitor 3 "Some 0" None None "[Pass]"]
    by (simp add: example_bare_handler_def)
qed

text \<open>
  C4. Every exception handler yields between 0 and 4 issues, at most one of each issue
  type, and every issue is of one of the four types \<open>bare_except\<close>, \<open>broad_exception\<close>,
  \<open>empty_except\<close>, \<open>pass_only\<close>.
\<close>

theorem handler_yields_at_most_one_issue_per_predicate:
  "length (handler_issues self (ExceptHandler ln col ty nm bd)) \<le> 4 \<and>
   (\<forall>t. length (filter (\<lambda>x. issue_type x = t)
                  (handler_issues self (ExceptHandler ln col ty nm bd))) \<le> 1) \<and>
   set (map issue_type (handler_issues self (ExceptHandler ln col ty nm bd))) \<subseteq>
     {py ''bare_except'', py ''broad_exception'', py ''empty_except'', py ''pass_only''}"
proof -
  let ?h = "ExceptHandler ln col ty nm bd"
  have len: "length (handler_issues self ?h) = length (map issue_type (handler_issues self ?h))"
    by simp
  have flt: "\<And>t. length (filter (\<lambda>x. issue_type x = t) (handler_issues self ?h)) =
                 length (filter (\<lambda>s. s = t) (map issue_type (handler_issues self ?h)))"
    by (simp add: filter_map comp_def)
  show ?thesis
    unfolding len flt handler_issues_types by auto
qed

theorem handler_yields_at_most_one_issue_per_predicate_witness:
  "length (handler_issues example_visitor example_broad_handler) \<le> 4 \<and>
   (\<forall>t. length (filter (\<lambda>x. issue_type x = t)
                  (handler_issues example_visitor example_broad_handler)) \<le> 1) \<and>
   map issue_type (handler_issues example_visitor example_broad_handler) =
     [py ''broad_exception'', py ''pass_only''] \<and>
   handler_issues example_visitor example_quiet_handler = []"
proof -
  have "map issue_type (handler_issues example_visitor example_broad_handler) =
     [py ''broad_exception'', py ''pass_only'']"
    by (simp add: handler_issues_types example_broad_handler_def is_broad_type_def
        is_silent_handler_def is_empty_handler_def is_pass_only_handler_def)
  moreover have "map issue_type (handler_issues example_visitor example_quiet_handler) = []"
    by (simp add: handler_issues_types example_quiet_handler_def is_broad_type_def
        is_empty_handler_def is_pass_only_handler_def)
  then have "handler_issues example_visitor example_quiet_handler = []"
    by simp
  ultimately show ?thesis
    using handler_yields_at_most_one_issue_per_predicate
      [of example_visitor 3 "Some 0" "Some (Name (py ''Exception'') Load)" None "[Pass]"]
    by (simp add: example_broad_handler_def)
qed

text \<open>
  C10. For one exception handler, a \<open>bare_except\<close> issue and a \<open>broad_exception\<close> issue
  are never both emitted (a handler without a filter is not classified as a broad catch),
  so a handler yields at most 2 issues.
\<close>

theorem bare_except_excludes_broad_exception:
  "\<not> ((\<exists>x\<in>set (handler_issues self (ExceptHandler ln col ty nm bd)).
            issue_type x = py ''bare_except'') \<and>
       (\<exists>y\<in>set (handler_issues self (ExceptHandler ln col ty nm bd)).
            issue_type y = py ''broad_exception'')) \<and>
   length (handler_issues self (ExceptHandler ln col ty nm bd)) \<le> 2"
proof -
  let ?h = "ExceptHandler ln col ty nm bd"
  have len: "length (handler_issues self ?h) = length (map issue_type (handler_issues self ?h))"
    by simp
  have "\<not> (py ''bare_except'' \<in> set (map issue_type (handler_issues self ?h)) \<and>
           py ''broad_exception'' \<in> set (map issue_type (handler_issues self ?h)))"
    unfolding handler_issues_types by simp
  moreover have "length (handler_issues self ?h) \<le> 2"
    unfolding len handler_issues_types by simp
  ultimately show ?thesis
    unfolding bex_issue_type by simp
qed

theorem bare_except_excludes_broad_exception_witness:
  "\<not> ((\<exists>x\<in>set (handler_issues example_visitor example_bare_handler).
            issue_type x = py ''bare_except'') \<and>
       (\<exists>y\<in>set (handler_issues example_visitor example_bare_handler).
            issue_type y = py ''broad_exception'')) \<and>
   length (handler_issues example_visitor example_bare_handler) = 2"
proof -
  have "map issue_type (handler_issues example_visitor example_bare_handler) =
     [py ''bare_except'', py ''pass_only'']"
    by (simp add: handler_issues_types example_bare_handler_def is_empty_handler_def
        is_pass_only_handler_def)
  then have "length (map issue_type (handler_issues example_visitor example_bare_handler)) = 2"
    by simp
  then have "length (handler_issues example_visitor example_bare_handler) = 2"
    by simp
  then show ?thesis
    using bare_except_excludes_broad_exception [of example_visitor 3 "Some 0" None None "[Pass]"]
    by (simp add: example_bare_handler_def)
qed

section \<open>Claims about aggregation, report and entry point\<close>

text \<open>
  C5. Merging the issues of two independently analysed files is commutative: the issues of
  file A followed by those of file B give the same per-file map, the same sorted items of
  that map, the same list of affected files (sorted, without duplicates, the paths of the
  issues), the same counts per issue type and the same total as the issues of B followed
  by those of A; and the groups hold every issue, as often as it was collected.
\<close>

theorem aggregation_is_commutative:
  assumes "path_str a \<noteq> path_str b"
  shows "let xs = fst (analyze_file ast_parse a); ys = fst (analyze_file ast_parse b) in
     map_of (group_by_file (xs @ ys)) = map_of (group_by_file (ys @ xs)) \<and>
     report_sections (xs @ ys) = report_sections (ys @ xs) \<and>
     get_files_with_issues (xs @ ys) = get_files_with_issues (ys @ xs) \<and>
     sorted (get_files_with_issues (xs @ ys)) \<and>
     distinct (get_files_with_issues (xs @ ys)) \<and>
     set (get_files_with_issues (xs @ ys)) = file_path ` set (xs @ ys) \<and>
     map_of (issue_counts (xs @ ys)) = map_of (issue_counts (ys @ xs)) \<and>
     length (xs @ ys) = length (ys @ xs) \<and>
     mset (concat (map snd (group_by_file (xs @ ys)))) = mset (xs @ ys) \<and>
     mset (concat (map snd (group_by_file (ys @ xs)))) = mset (xs @ ys)"
proof -
  define xs where "xs = fst (analyze_file ast_parse a)"
  define ys where "ys = fst (analyze_file ast_parse b)"
  have pa: "\<forall>i\<in>set xs. file_path i = path_str a"
    unfolding xs_def using analyze_file_file_path by blast
  have pb: "\<forall>i\<in>set ys. file_path i = path_str b"
    unfolding ys_def using analyze_file_file_path by blast
  have f: "\<And>q. filter (\<lambda>i. file_path i = q) (xs @ ys) = filter (\<lambda>i. file_path i = q) (ys @ xs)"
    using pa pb assms by (rule different_files_filter)
  have "map_of (group_by_file (xs @ ys)) = map_of (group_by_file (ys @ xs))"
    by (rule ext) (simp only: group_by_file_map_of f)
  moreover have "report_sections (xs @ ys) = report_sections (ys @ xs)"
    using f by (rule same_per_file_report_sections)
  moreover have "get_files_with_issues (xs @ ys) = get_files_with_issues (ys @ xs)"
    by (simp add: get_files_with_issues_eq Un_commute)
  moreover have "sorted (get_files_with_issues (xs @ ys)) \<and>
      distinct (get_files_with_issues (xs @ ys)) \<and>
      set (get_files_with_issues (xs @ ys)) = file_path ` set (xs @ ys)"
    unfolding get_files_with_issues_eq by simp
  moreover have "map_of (issue_counts (xs @ ys)) = map_of (issue_counts (ys @ xs))"
    by (rule issue_counts_mset) simp
  moreover have "mset (concat (map snd (group_by_file (xs @ ys)))) = mset (xs @ ys)"
    by (rule mset_group_by_file)
  moreover have "mset (concat (map snd (group_by_file (ys @ xs)))) = mset (xs @ ys)"
    by (simp add: mset_group_by_file)
  ultimately show ?thesis
    unfolding Let_def xs_def ys_def by simp
qed

theorem aggregation_is_commutative_witness:
  "map_of (group_by_file (fst (analyze_file example_parser example_file_a) @
                          fst (analyze_file example_parser example_file_b))) =
   map_of (group_by_file (fst (analyze_file example_parser example_file_b) @
                          fst (analyze_file example_parser example_file_a))) \<and>
   get_files_with_issues (fst (analyze_file example_parser example_file_a) @
                          fst (analyze_file example_parser example_file_b)) =
   get_files_with_issues (fst (analyze_file example_parser example_file_b) @
                          fst (analyze_file example_parser example_file_a)) \<and>
   length (fst (analyze_file example_parser example_file_a)) = 3 \<and>
   length (fst (analyze_file example_parser example_file_b)) = 3"
proof -
  have "path_str example_file_a \<noteq> path_str example_file_b"
    by (simp add: example_file_a_def example_file_b_def)
  from aggregation_is_commutative [OF this, of example_parser]
  have "map_of (group_by_file (fst (analyze_file example_parser example_file_a) @
                          fst (analyze_file example_parser example_file_b))) =
   map_of (group_by_file (fst (analyze_file example_parser example_file_b) @
                          fst (analyze_file example_parser example_file_a))) \<and>
   get_files_with_issues (fst (analyze_file example_parser example_file_a) @
                          fst (analyze_file example_parser example_file_b)) =
   get_files_with_issues (fst (analyze_file example_parser example_file_b) @
                          fst (analyze_file example_parser example_file_a))"
    unfolding Let_def by blast
  moreover have "length (map issue_type (fst (analyze_file example_parser example_file_a))) = 3"
    by (simp add: example_file_issue_types example_file_a_def)
  moreover have "length (map issue_type (fst (analyze_file example_parser example_file_b))) = 3"
    by (simp add: example_file_issue_types example_file_b_def)
  ultimately show ?thesis by simp
qed





text \<open>
  C8. When the parser raises \<open>SyntaxError\<close> for a file, the visitor does not run for
  it: \<open>analyze_file\<close> returns no issues and prints one line naming the syntax error to
  \<open>sys.stderr\<close>; in a directory, the issues are those of the files before it followed
  by those of the files after it, as if the file were not there, and the line stands
  between the lines printed for the files before and after.
\<close>

theorem parse_failure_is_isolated:
  assumes "read_text f = Inr source_code"
    and "ast_parse source_code (path_str f) = Inl (SyntaxError msg)"
    and "\<not> excluded ps f"
  shows "analyze_file ast_parse f =
           ([], [py ''Syntax error in '' @ path_str f @ py '': '' @ msg]) \<and>
         fst (analyze_directory ast_parse (before @ f # after) (Some ps)) =
           fst (analyze_directory ast_parse (before @ after) (Some ps)) \<and>
         snd (analyze_directory ast_parse (before @ f # after) (Some ps)) =
           snd (analyze_directory ast_parse before (Some ps)) @
           [py ''Syntax error in '' @ path_str f @ py '': '' @ msg] @
           snd (analyze_directory ast_parse after (Some ps))"
proof -
  have a: "analyze_file ast_parse f =
           ([], [py ''Syntax error in '' @ path_str f @ py '': '' @ msg])"
    using assms(1,2) by (simp add: analyze_file_def analyze_file_except_def)
  show ?thesis
    using assms(3) by (simp add: a analyze_directory_eq)
qed

theorem parse_failure_is_isolated_witness:
  "analyze_file example_parser example_file_bad =
     ([], [py ''Syntax error in bad.py: invalid syntax'']) \<and>
   fst (analyze_directory example_parser [example_file_a, example_file_bad, example_file_b]
          (Some default_exclude_patterns)) =
     fst (analyze_directory example_parser [example_file_a, example_file_b]
          (Some default_exclude_patterns)) \<and>
   snd (analyze_directory example_parser [example_file_a, example_file_bad, example_file_b]
          (Some default_exclude_patterns)) =
     snd (analyze_directory example_parser [example_file_a] (Some default_exclude_patterns)) @
     [py ''Syntax error in bad.py: invalid syntax''] @
     snd (analyze_directory example_parser [example_file_b] (Some default_exclude_patterns))"
proof -
  have r: "read_text example_file_bad = Inr (py ''def'')"
    by (simp add: example_file_bad_def)
  have p: "example_parser (py ''def'') (path_str example_file_bad) =
             Inl (SyntaxError (py ''invalid syntax''))"
    by (simp add: example_parser_def)
  have e: "\<not> excluded default_exclude_patterns example_file_bad"
    by code_simp
  have s: "path_str example_file_bad = py ''bad.py''"
    by (simp add: example_file_bad_def)
  show ?thesis
    using parse_failure_is_isolated
      [where ast_parse = example_parser and f = example_file_bad
         and ps = default_exclude_patterns and before = "[example_file_a]"
         and after = "[example_file_b]", OF r p e]
    unfolding s by simp
qed

text \<open>
  C9, as amended. When the path exists and \<open>--parallel-fix\<close> is given without
  \<open>--files-only\<close>, the output recommends the parallel fix exactly when more than 5
  files have issues, the sequential fix exactly when 1 to 5 files have issues, and says
  that no files need fixing exactly when no file has issues.
\<close>

theorem parallel_fix_advice:
  assumes "path_exists fs" "parallel_fix args" "\<not> files_only args"
  shows "((\<exists>m. Text (parallel_fix_recommended m) \<in> set (stdout (main ast_parse fs args))) \<longleftrightarrow>
            5 < length (get_files_with_issues (fst (analyze_path ast_parse fs args)))) \<and>
         ((\<exists>m. Text (sequential_fix_recommended m) \<in> set (stdout (main ast_parse fs args))) \<longleftrightarrow>
            0 < length (get_files_with_issues (fst (analyze_path ast_parse fs args))) \<and>
            length (get_files_with_issues (fst (analyze_path ast_parse fs args))) \<le> 5) \<and>
         (Text no_files_need_fixing \<in> set (stdout (main ast_parse fs args)) \<longleftrightarrow>
            length (get_files_with_issues (fst (analyze_path ast_parse fs args))) = 0)"
proof -
  note out = parallel_fix_stdout [OF assms, of ast_parse]
  have "\<And>msg. hd msg = 10 \<Longrightarrow>
          Text msg \<in> set (stdout (main ast_parse fs args)) \<longleftrightarrow>
          Text msg \<in> set (parallel_fix_closing
            (length (get_files_with_issues (fst (analyze_path ast_parse fs args)))))"
    unfolding out by (rule closing_message_position)
  then show ?thesis
    by (simp only: closing_message_heads parallel_fix_closing_parallel
        parallel_fix_closing_sequential parallel_fix_closing_none simp_thms)
qed

theorem parallel_fix_advice_witness:
  "Text no_files_need_fixing \<in>
     set (stdout (main example_parser example_empty_directory
                    (example_arguments\<lparr>parallel_fix := True\<rparr>))) \<and>
   length (get_files_with_issues
             (fst (analyze_path example_parser example_empty_directory
                     (example_arguments\<lparr>parallel_fix := True\<rparr>)))) = 0"
proof -
  have n: "length (get_files_with_issues
             (fst (analyze_path example_parser example_empty_directory
                     (example_arguments\<lparr>parallel_fix := True\<rparr>)))) = 0"
    by (simp add: analyze_path_def analyze_directory_eq example_empty_directory_def
        get_files_with_issues_eq)
  have "path_exists example_empty_directory"
    by (simp add: example_empty_directory_def)
  moreover have "parallel_fix (example_arguments\<lparr>parallel_fix := True\<rparr>)"
    by simp
  moreover have "\<not> files_only (example_arguments\<lparr>parallel_fix := True\<rparr>)"
    by (simp add: example_arguments_def)
  ultimately show ?thesis
    using parallel_fix_advice [of example_empty_directory
        "example_arguments\<lparr>parallel_fix := True\<rparr>" example_parser] n
    by blast
qed

text \<open>
  With \<open>--files-only\<close> as well, the \<open>--files-only\<close> branch runs and exits first: on a
  directory without issues nothing is printed, although \<open>--parallel-fix\<close> is given and
  no file has issues.
\<close>

theorem parallel_fix_advice_counterexample:
  "path_exists example_empty_directory \<and>
   parallel_fix (example_arguments\<lparr>files_only := True, parallel_fix := True\<rparr>) \<and>
   length (get_files_with_issues
             (fst (analyze_path example_parser example_empty_directory
                     (example_arguments\<lparr>files_only := True, parallel_fix := True\<rparr>)))) = 0 \<and>
   Text no_files_need_fixing \<notin>
     set (stdout (main example_parser example_empty_directory
                    (example_arguments\<lparr>files_only := True, parallel_fix := True\<rparr>))) \<and>
   stdout (main example_parser example_empty_directory
             (example_arguments\<lparr>files_only := True, parallel_fix := True\<rparr>)) = []"
proof -
  have p: "path_exists example_empty_directory"
    by (simp add: example_empty_directory_def)
  have f: "files_only (example_arguments\<lparr>files_only := True, parallel_fix := True\<rparr>)"
    by simp
  have a: "fst (analyze_path example_parser example_empty_directory
                     (example_arguments\<lparr>files_only := True, parallel_fix := True\<rparr>)) = []"
    by (simp add: analyze_path_def analyze_directory_eq example_empty_directory_def)
  have g: "get_files_with_issues [] = []"
    by (simp add: get_files_with_issues_eq)
  show ?thesis
    using p by (simp add: files_only_stdout [OF p f] a g)
qed

end
